theory Spec2Isabelle
  imports Complex_Main "HOL-Library.Word"
begin

section \<open>Data model\<close>

text \<open>
  The C API keeps one global, \<^verbatim>\<open>std::map<int, StatsCalculator> statsCalculators\<close>.
  A handle is a C++ \<^verbatim>\<open>int\<close>: a 32-bit word read as two's complement (\<open>sint\<close>), and the
  map's key order \<^verbatim>\<open>std::less<int>\<close> is the signed order \<open><s\<close>.

  The only arithmetic on handles is the \<^verbatim>\<open>+ 1\<close> of \<^verbatim>\<open>statsCalcCreate\<close>. C++ leaves that
  addition undefined when the operand is \<open>INT_MAX\<close>; the model takes what the addition
  gives on two's-complement hardware, the wrapped value \<open>INT_MIN\<close>. Every statement
  below that assumes the live handles below \<open>INT_MAX\<close> is independent of that choice.
\<close>

type_synonym handle = "32 word"

text \<open>
  The class \<^verbatim>\<open>StatsCalculator\<close> has one member datum, the vector \<^verbatim>\<open>numericValues\<close>.
  The type \<open>'d\<close> stands for \<^verbatim>\<open>double\<close>; its arithmetic is not interpreted here but
  passed in as a record of operations where a function needs it.
\<close>

record 'd StatsCalculator =
  numericValues :: "'d list"

text \<open>
  A \<^verbatim>\<open>std::map\<close> is the sequence of its elements in key order (what iterating from
  \<^verbatim>\<open>begin()\<close> to \<^verbatim>\<open>end()\<close> visits). An iterator is a position in that sequence, and
  \<^verbatim>\<open>end()\<close> is the position one past the last element.
\<close>

type_synonym 'd statsmap = "(handle \<times> 'd StatsCalculator) list"

text \<open>The class invariant of \<^verbatim>\<open>std::map\<close>: keys strictly ascending in the signed order.\<close>

definition map_ok :: "'d statsmap \<Rightarrow> bool" where
  "map_ok m \<longleftrightarrow> sorted_wrt (\<lambda>p q. fst p <s fst q) m"

text \<open>The handles that are live, and the exception \<^verbatim>\<open>std::map::at\<close> throws.\<close>

definition handles :: "'d statsmap \<Rightarrow> handle set" where
  "handles m = fst ` set m"

datatype exn = out_of_range

section \<open>The members of std::map that the C API calls\<close>

definition empty_map :: "'d statsmap \<Rightarrow> bool" where
  "empty_map m \<longleftrightarrow> m = []"

definition end_map :: "'d statsmap \<Rightarrow> nat" where
  "end_map m = length m"

definition rbegin :: "'d statsmap \<Rightarrow> handle \<times> 'd StatsCalculator" where
  "rbegin m = last m"

text \<open>\<^verbatim>\<open>find(key)\<close>: the position of the element with that key, \<^verbatim>\<open>end()\<close> if there is none.\<close>

fun find_map :: "handle \<Rightarrow> 'd statsmap \<Rightarrow> nat" where
  "find_map k [] = 0"
| "find_map k (p # m) = (if fst p = k then 0 else Suc (find_map k m))"

text \<open>\<^verbatim>\<open>erase(pos)\<close> removes the one element at the position.\<close>

definition erase :: "nat \<Rightarrow> 'd statsmap \<Rightarrow> 'd statsmap" where
  "erase pos m = take pos m @ drop (Suc pos) m"

text \<open>
  \<^verbatim>\<open>at(key)\<close> gives a reference to the mapped value (here: its position), and throws
  \<^verbatim>\<open>std::out_of_range\<close> when the key is absent.
\<close>

definition at_map :: "handle \<Rightarrow> 'd statsmap \<Rightarrow> exn + nat" where
  "at_map k m = (let pos = find_map k m in if pos = end_map m then Inl out_of_range else Inr pos)"

text \<open>
  \<^verbatim>\<open>emplace_hint(hint, pair)\<close>: the hint only affects speed. The pair goes in at its place
  in key order unless an element with an equivalent key is there already; the result is
  the position of the inserted element, or of the one that prevented the insertion.
\<close>

fun emplace_hint :: "handle \<times> 'd StatsCalculator \<Rightarrow> 'd statsmap \<Rightarrow> nat \<times> 'd statsmap" where
  "emplace_hint p [] = (0, [p])"
| "emplace_hint p (q # m) =
     (if fst p <s fst q then (0, p # q # m)
      else if fst q <s fst p then (case emplace_hint p m of (i, m') \<Rightarrow> (Suc i, q # m'))
      else (0, q # m))"

section \<open>Creation and destruction\<close>

text \<open>
  Modelled from the spec: the default constructor \<^verbatim>\<open>StatsCalculator()\<close>, declared in the
  header and defined in a file that is not among the sources. The spec's data model says
  an accumulator is created empty.
\<close>

definition StatsCalculator_new :: "'d StatsCalculator" where
  "StatsCalculator_new = \<lparr>numericValues = []\<rparr>"

text \<open>
  \<^verbatim>\<open>int key = statsCalculators.empty() ? 0 : statsCalculators.rbegin()->first + 1;\<close>
  then the \<^verbatim>\<open>emplace_hint\<close> at \<^verbatim>\<open>end()\<close>, and the first component of the element the
  returned iterator points to. The result is the returned handle and the map afterwards.
\<close>

definition statsCalcCreate :: "'d statsmap \<Rightarrow> handle \<times> 'd statsmap" where
  "statsCalcCreate m =
     (let key = (if empty_map m then 0 else fst (rbegin m) + 1) in
      case emplace_hint (key, StatsCalculator_new) m of
        (it, m') \<Rightarrow> (let created = m' ! it in (fst created, m')))"

definition statsCalcDestroy :: "handle \<Rightarrow> 'd statsmap \<Rightarrow> 'd statsmap" where
  "statsCalcDestroy h m =
     (let handlePos = find_map h m in
      if handlePos \<noteq> end_map m then erase handlePos m else m)"

section \<open>The accumulator's methods\<close>

text \<open>
  The operations on \<^verbatim>\<open>double\<close> that the methods use: the literal \<^verbatim>\<open>0.0\<close>, the four
  arithmetic operations needed, \<^verbatim>\<open>sqrt\<close>, and the conversion of a \<^verbatim>\<open>size_t\<close> count.
  They are parameters: nothing of IEEE arithmetic (rounding, infinities, NaN) is assumed.
\<close>

record 'd double_ops =
  d_zero :: "'d"
  d_add :: "'d \<Rightarrow> 'd \<Rightarrow> 'd"
  d_sub :: "'d \<Rightarrow> 'd \<Rightarrow> 'd"
  d_mul :: "'d \<Rightarrow> 'd \<Rightarrow> 'd"
  d_div :: "'d \<Rightarrow> 'd \<Rightarrow> 'd"
  d_sqrt :: "'d \<Rightarrow> 'd"
  d_of_size :: "nat \<Rightarrow> 'd"

text \<open>
  Modelled from the spec: \<^verbatim>\<open>StatsCalculator::appendValue\<close>, declared in the header and
  defined in a file that is not among the sources. It adds the value to the end of the
  sample sequence.
\<close>

definition appendValue :: "'d \<Rightarrow> 'd StatsCalculator \<Rightarrow> 'd StatsCalculator" where
  "appendValue v c = c\<lparr>numericValues := numericValues c @ [v]\<rparr>"

text \<open>
  Modelled from the spec: \<^verbatim>\<open>StatsCalculator::readFile\<close>, defined in the missing file. It
  clears nothing and appends every numeric token of the file, in the order the file-reading
  collaborator yields them. The collaborator is the parameter \<open>tokens\<close>: the values it
  yields for a path.
\<close>

definition readFile :: "(string \<Rightarrow> 'd list) \<Rightarrow> string \<Rightarrow> 'd StatsCalculator \<Rightarrow> 'd StatsCalculator" where
  "readFile tokens infileName c = c\<lparr>numericValues := numericValues c @ tokens infileName\<rparr>"

text \<open>
  Modelled from the spec: \<^verbatim>\<open>computeSum\<close>, \<^verbatim>\<open>computeMean\<close> and
  \<^verbatim>\<open>computeStandardDeviation\<close>, private methods defined in the missing file. The sum
  accumulates left to right from 0.0; the mean is the sum over the count; the standard
  deviation is the square root of the sum of the squared deviations from the mean over
  the count.
\<close>

definition computeSum :: "'d double_ops \<Rightarrow> 'd StatsCalculator \<Rightarrow> 'd" where
  "computeSum fp c = foldl (d_add fp) (d_zero fp) (numericValues c)"

definition computeMean :: "'d double_ops \<Rightarrow> 'd StatsCalculator \<Rightarrow> 'd" where
  "computeMean fp c = d_div fp (computeSum fp c) (d_of_size fp (length (numericValues c)))"

definition computeStandardDeviation :: "'d double_ops \<Rightarrow> 'd StatsCalculator \<Rightarrow> 'd" where
  "computeStandardDeviation fp c =
     (let mean = computeMean fp c;
          squares = map (\<lambda>x. d_mul fp (d_sub fp x mean) (d_sub fp x mean)) (numericValues c)
      in d_sqrt fp (d_div fp (foldl (d_add fp) (d_zero fp) squares)
                             (d_of_size fp (length (numericValues c)))))"

text \<open>
  Modelled from the spec: the public \<^verbatim>\<open>getSum\<close>, \<^verbatim>\<open>getMean\<close> and
  \<^verbatim>\<open>getStandardDeviation\<close> of the missing file return what the private methods compute,
  from the current samples.
\<close>

definition getSum :: "'d double_ops \<Rightarrow> 'd StatsCalculator \<Rightarrow> 'd" where
  "getSum fp c = computeSum fp c"

definition getMean :: "'d double_ops \<Rightarrow> 'd StatsCalculator \<Rightarrow> 'd" where
  "getMean fp c = computeMean fp c"

definition getStandardDeviation :: "'d double_ops \<Rightarrow> 'd StatsCalculator \<Rightarrow> 'd" where
  "getStandardDeviation fp c = computeStandardDeviation fp c"

text \<open>
  Modelled from the spec: \<^verbatim>\<open>StatsCalculator::writeStats\<close>, defined in the missing file. It
  hands the summary (sum, mean, standard deviation) to the file-writing collaborator; the
  result here is the file written: its path and the three numbers.
\<close>

type_synonym 'd stats_file = "string \<times> 'd \<times> 'd \<times> 'd"

definition writeStats :: "'d double_ops \<Rightarrow> string \<Rightarrow> 'd StatsCalculator \<Rightarrow> 'd stats_file" where
  "writeStats fp outfileName c =
     (outfileName, getSum fp c, getMean fp c, getStandardDeviation fp c)"

section \<open>The C API on an instance\<close>

text \<open>
  Each function looks the handle up with \<^verbatim>\<open>at\<close> inside a \<^verbatim>\<open>try\<close> block and catches
  \<^verbatim>\<open>std::out_of_range\<close>. A mutating method acts on the mapped value in place.
\<close>

definition statsCalcAppendValue :: "handle \<Rightarrow> 'd \<Rightarrow> 'd statsmap \<Rightarrow> 'd statsmap" where
  "statsCalcAppendValue h v m =
     (case at_map h m of
        Inl out_of_range \<Rightarrow> m
      | Inr pos \<Rightarrow> m[pos := (fst (m ! pos), appendValue v (snd (m ! pos)))])"

definition statsCalcReadFile ::
  "(string \<Rightarrow> 'd list) \<Rightarrow> handle \<Rightarrow> string \<Rightarrow> 'd statsmap \<Rightarrow> 'd statsmap" where
  "statsCalcReadFile tokens h fileName m =
     (case at_map h m of
        Inl out_of_range \<Rightarrow> m
      | Inr pos \<Rightarrow> m[pos := (fst (m ! pos), readFile tokens fileName (snd (m ! pos)))])"

text \<open>The result of \<^verbatim>\<open>statsCalcWriteStats\<close>: the file written, if any, and the map.\<close>

definition statsCalcWriteStats ::
  "'d double_ops \<Rightarrow> handle \<Rightarrow> string \<Rightarrow> 'd statsmap \<Rightarrow> 'd stats_file option \<times> 'd statsmap" where
  "statsCalcWriteStats fp h fileName m =
     (case at_map h m of
        Inl out_of_range \<Rightarrow> (None, m)
      | Inr pos \<Rightarrow> (Some (writeStats fp fileName (snd (m ! pos))), m))"

definition statsCalcGetSum :: "'d double_ops \<Rightarrow> handle \<Rightarrow> 'd statsmap \<Rightarrow> 'd" where
  "statsCalcGetSum fp h m =
     (case at_map h m of
        Inl out_of_range \<Rightarrow> d_zero fp
      | Inr pos \<Rightarrow> getSum fp (snd (m ! pos)))"

definition statsCalcGetMean :: "'d double_ops \<Rightarrow> handle \<Rightarrow> 'd statsmap \<Rightarrow> 'd" where
  "statsCalcGetMean fp h m =
     (case at_map h m of
        Inl out_of_range \<Rightarrow> d_zero fp
      | Inr pos \<Rightarrow> getMean fp (snd (m ! pos)))"

definition statsCalcGetStdDev :: "'d double_ops \<Rightarrow> handle \<Rightarrow> 'd statsmap \<Rightarrow> 'd" where
  "statsCalcGetStdDev fp h m =
     (case at_map h m of
        Inl out_of_range \<Rightarrow> d_zero fp
      | Inr pos \<Rightarrow> getStandardDeviation fp (snd (m ! pos)))"

section \<open>Sequences of calls\<close>

datatype 'd call =
    Create
  | Destroy handle
  | AppendValue handle 'd
  | ReadFile handle string
  | WriteStats handle string
  | GetSum handle
  | GetMean handle
  | GetStdDev handle

text \<open>
  The map after one call. The three queries return a \<^verbatim>\<open>double\<close> and
  \<^verbatim>\<open>statsCalcWriteStats\<close> writes a file: the map after them is the map before.
\<close>

fun exec :: "(string \<Rightarrow> 'd list) \<Rightarrow> 'd call \<Rightarrow> 'd statsmap \<Rightarrow> 'd statsmap" where
  "exec tokens Create m = snd (statsCalcCreate m)"
| "exec tokens (Destroy h) m = statsCalcDestroy h m"
| "exec tokens (AppendValue h v) m = statsCalcAppendValue h v m"
| "exec tokens (ReadFile h f) m = statsCalcReadFile tokens h f m"
| "exec tokens (WriteStats h f) m = m"
| "exec tokens (GetSum h) m = m"
| "exec tokens (GetMean h) m = m"
| "exec tokens (GetStdDev h) m = m"

fun run :: "(string \<Rightarrow> 'd list) \<Rightarrow> 'd call list \<Rightarrow> 'd statsmap \<Rightarrow> 'd statsmap" where
  "run tokens [] m = m"
| "run tokens (c # cs) m = run tokens cs (exec tokens c m)"

text \<open>The handles that the \<^verbatim>\<open>statsCalcCreate\<close> calls of a sequence return, in order.\<close>

fun created :: "(string \<Rightarrow> 'd list) \<Rightarrow> 'd call list \<Rightarrow> 'd statsmap \<Rightarrow> handle list" where
  "created tokens [] m = []"
| "created tokens (Create # cs) m =
     fst (statsCalcCreate m) # created tokens cs (exec tokens Create m)"
| "created tokens (c # cs) m = created tokens cs (exec tokens c m)"

fun creates :: "'d call list \<Rightarrow> nat" where
  "creates [] = 0"
| "creates (Create # cs) = Suc (creates cs)"
| "creates (c # cs) = creates cs"

text \<open>The values that a sequence of calls appends to the instance of handle \<open>h\<close>, in order.\<close>

fun appended :: "(string \<Rightarrow> 'd list) \<Rightarrow> handle \<Rightarrow> 'd call list \<Rightarrow> 'd list" where
  "appended tokens h [] = []"
| "appended tokens h (AppendValue k v # cs) = (if k = h then [v] else []) @ appended tokens h cs"
| "appended tokens h (ReadFile k f # cs) = (if k = h then tokens f else []) @ appended tokens h cs"
| "appended tokens h (c # cs) = appended tokens h cs"

text \<open>
  A sequence of calls, run from the map \<open>m\<close>, never destroys the handle that is the
  greatest live one at that moment.
\<close>

fun never_destroys_max :: "(string \<Rightarrow> 'd list) \<Rightarrow> 'd call list \<Rightarrow> 'd statsmap \<Rightarrow> bool" where
  "never_destroys_max tokens [] m = True"
| "never_destroys_max tokens (Destroy h # cs) m =
     ((empty_map m \<or> h \<noteq> fst (rbegin m)) \<and> never_destroys_max tokens cs (exec tokens (Destroy h) m))"
| "never_destroys_max tokens (c # cs) m = never_destroys_max tokens cs (exec tokens c m)"

text \<open>
  The sequence that walks the greatest handle up to \<open>n\<close> with at most two instances alive:
  create (handle 0), then for each \<open>i < n\<close> create (handle \<open>i + 1\<close>) and destroy \<open>i\<close>.
\<close>

definition climb :: "nat \<Rightarrow> 'd call list" where
  "climb n = Create # concat (map (\<lambda>i. [Create, Destroy (of_nat i)]) [0..<n])"

text \<open>The calls that neither insert nor erase an element.\<close>

fun keeps_keys :: "'d call \<Rightarrow> bool" where
  "keeps_keys Create = False"
| "keeps_keys (Destroy h) = False"
| "keeps_keys c = True"

text \<open>
  The invariant of a run from the empty registry: the map is well formed and its handles
  lie in \<open>[0, n)\<close>.
\<close>

definition in_range :: "nat \<Rightarrow> 'd statsmap \<Rightarrow> bool" where
  "in_range n m \<longleftrightarrow> map_ok m \<and> (\<forall>k \<in> handles m. 0 \<le> sint k \<and> sint k < int n)"

text \<open>The greatest value of a C++ \<^verbatim>\<open>int\<close>.\<close>

definition INT_MAX :: int where
  "INT_MAX = 2147483647"

text \<open>
  Exact arithmetic on the reals as an instance of the operations, to run the model on
  concrete samples.
\<close>

definition real_ops :: "real double_ops" where
  "real_ops = \<lparr>d_zero = 0, d_add = (+), d_sub = (-), d_mul = (*), d_div = (/),
                d_sqrt = sqrt, d_of_size = real\<rparr>"

text \<open>
  An instance with the special values of IEEE 754: the reals extended with the two
  infinities and NaN. Rounding and the sign of zero are left out. NaN is the result of
  0/0, of infinity minus infinity, of zero times infinity, of infinity over infinity and
  of the square root of a negative number, and every operation passes a NaN on.
\<close>

datatype xdouble = Fin real | PInf | NInf | NaN

fun x_add :: "xdouble \<Rightarrow> xdouble \<Rightarrow> xdouble" where
  "x_add NaN y = NaN"
| "x_add x NaN = NaN"
| "x_add (Fin a) (Fin b) = Fin (a + b)"
| "x_add PInf NInf = NaN"
| "x_add NInf PInf = NaN"
| "x_add PInf y = PInf"
| "x_add x PInf = PInf"
| "x_add NInf y = NInf"
| "x_add x NInf = NInf"

fun x_neg :: "xdouble \<Rightarrow> xdouble" where
  "x_neg (Fin a) = Fin (- a)"
| "x_neg PInf = NInf"
| "x_neg NInf = PInf"
| "x_neg NaN = NaN"

definition x_sub :: "xdouble \<Rightarrow> xdouble \<Rightarrow> xdouble" where
  "x_sub x y = x_add x (x_neg y)"

text \<open>An infinity times or over a finite number: the sign follows the number's.\<close>

definition x_signed :: "xdouble \<Rightarrow> real \<Rightarrow> xdouble" where
  "x_signed x a = (if 0 < a then x else x_neg x)"

fun x_mul :: "xdouble \<Rightarrow> xdouble \<Rightarrow> xdouble" where
  "x_mul NaN y = NaN"
| "x_mul x NaN = NaN"
| "x_mul (Fin a) (Fin b) = Fin (a * b)"
| "x_mul (Fin a) y = (if a = 0 then NaN else x_signed y a)"
| "x_mul x (Fin b) = (if b = 0 then NaN else x_signed x b)"
| "x_mul PInf y = y"
| "x_mul NInf y = x_neg y"

fun x_div :: "xdouble \<Rightarrow> xdouble \<Rightarrow> xdouble" where
  "x_div NaN y = NaN"
| "x_div x NaN = NaN"
| "x_div (Fin a) (Fin b) =
     (if b \<noteq> 0 then Fin (a / b) else if a = 0 then NaN else x_signed PInf a)"
| "x_div (Fin a) y = Fin 0"
| "x_div x (Fin b) = (if b = 0 then x else x_signed x b)"
| "x_div x y = NaN"

fun x_sqrt :: "xdouble \<Rightarrow> xdouble" where
  "x_sqrt (Fin a) = (if a < 0 then NaN else Fin (sqrt a))"
| "x_sqrt PInf = PInf"
| "x_sqrt NInf = NaN"
| "x_sqrt NaN = NaN"

definition xdouble_ops :: "xdouble double_ops" where
  "xdouble_ops = \<lparr>d_zero = Fin 0, d_add = x_add, d_sub = x_sub, d_mul = x_mul, d_div = x_div,
                   d_sqrt = x_sqrt, d_of_size = (\<lambda>n. Fin (real n))\<rparr>"

section \<open>Facts about the map operations\<close>

lemma find_map_le: "find_map k m \<le> length m"
  by (induction m) auto

lemma find_map_end_iff: "find_map k m = length m \<longleftrightarrow> k \<notin> handles m"
proof (induction m)
  case Nil
  then show ?case by (simp add: handles_def)
next
  case (Cons p m)
  have "find_map k m \<le> length m" by (rule find_map_le)
  with Cons show ?case by (auto simp: handles_def)
qed

lemma sint_succ: "sint (k :: 32 word) < 2147483647 \<Longrightarrow> sint (k + 1) = sint k + 1"
proof -
  assume a: "sint k < 2147483647"
  have b: "- (2 ^ (LENGTH(32) - 1)) \<le> sint k" by (rule sint_ge)
  show ?thesis
    using a b by (simp add: sint_word_ariths signed_take_bit_int_eq_self)
qed

lemma emplace_hint_pos: "emplace_hint p m = (i, m') \<Longrightarrow> i < length m' \<and> fst (m' ! i) = fst p"
proof (induction m arbitrary: i m')
  case Nil
  then show ?case by auto
next
  case (Cons q m)
  then show ?case
    by (auto split: if_splits prod.splits simp: word_sless_alt dest: signed_word_eqI)
qed

lemma emplace_hint_back:
  "\<forall>q \<in> set m. fst q <s fst p \<Longrightarrow> emplace_hint p m = (length m, m @ [p])"
  by (induction m) (auto simp: word_sless_alt)

lemma last_is_max:
  "map_ok m \<Longrightarrow> q \<in> set m \<Longrightarrow> sint (fst q) \<le> sint (fst (last m))"
proof (induction m)
  case Nil
  then show ?case by simp
next
  case (Cons p m)
  show ?case
  proof (cases "m = []")
    case True
    with Cons.prems show ?thesis by simp
  next
    case False
    then have l: "last m \<in> set m" by simp
    from Cons.prems have ok: "map_ok m" and lt: "\<forall>x\<in>set m. sint (fst p) < sint (fst x)"
      by (auto simp: map_ok_def word_sless_alt)
    show ?thesis
    proof (cases "q = p")
      case True
      with lt l False show ?thesis by (auto simp: less_imp_le)
    next
      case qp: False
      with Cons.prems have "q \<in> set m" by simp
      with Cons.IH ok False show ?thesis by simp
    qed
  qed
qed

lemma map_ok_keys: "map_ok m \<longleftrightarrow> sorted_wrt (\<lambda>a b. sint a < sint b) (map fst m)"
  by (simp add: map_ok_def sorted_wrt_map word_sless_alt)

lemma map_ok_Cons:
  "map_ok (p # m) \<longleftrightarrow> (\<forall>k \<in> handles m. sint (fst p) < sint k) \<and> map_ok m"
  by (auto simp: map_ok_def handles_def word_sless_alt)

lemma handles_Cons: "handles (p # m) = insert (fst p) (handles m)"
  by (simp add: handles_def)

lemma map_of_None_iff: "map_of m k = None \<longleftrightarrow> k \<notin> handles m"
  by (simp add: handles_def map_of_eq_None_iff)

text \<open>What \<^verbatim>\<open>emplace_hint\<close> does to a well-formed map, wherever the key falls.\<close>

lemma emplace_hint_general:
  "map_ok m \<Longrightarrow> emplace_hint p m = (i, m') \<Longrightarrow>
     map_ok m' \<and> handles m' = insert (fst p) (handles m) \<and>
     (fst p \<in> handles m \<longrightarrow> m' = m) \<and>
     (fst p \<notin> handles m \<longrightarrow> map_of m' = (map_of m)(fst p \<mapsto> snd p))"
proof (induction m arbitrary: i m')
  case Nil
  then show ?case by (auto simp: map_ok_def handles_def)
next
  case (Cons q m)
  from Cons.prems(1) have gt: "\<forall>k \<in> handles m. sint (fst q) < sint k" and ok: "map_ok m"
    by (simp_all add: map_ok_Cons)
  consider (before) "sint (fst p) < sint (fst q)"
    | (after) "sint (fst q) < sint (fst p)"
    | (same) "fst p = fst q"
    using signed_word_eqI [of "fst p" "fst q"] by fastforce
  then show ?case
  proof cases
    case before
    with Cons.prems(2) have m': "m' = p # q # m" by (simp add: word_sless_alt)
    from before gt have notin: "fst p \<notin> handles (q # m)"
      by (auto simp: handles_Cons)
    have "map_ok (p # q # m)"
      using before gt Cons.prems(1) by (auto simp: map_ok_Cons handles_Cons)
    moreover have "map_of (p # q # m) = (map_of (q # m))(fst p \<mapsto> snd p)"
      by (cases p) simp
    ultimately show ?thesis
      unfolding m' using notin by (intro conjI impI) (simp_all only: handles_Cons fst_conv)
  next
    case after
    obtain j r where e: "emplace_hint p m = (j, r)" by (cases "emplace_hint p m")
    with after Cons.prems(2) have m': "m' = q # r" by (simp add: word_sless_alt)
    from Cons.IH [OF ok e] have ih: "map_ok r" "handles r = insert (fst p) (handles m)"
      "fst p \<in> handles m \<longrightarrow> r = m"
      "fst p \<notin> handles m \<longrightarrow> map_of r = (map_of m)(fst p \<mapsto> snd p)"
      by blast+
    have okr: "map_ok (q # r)"
      using ih(1,2) gt after by (auto simp: map_ok_Cons)
    have upd: "fst p \<notin> handles m \<Longrightarrow> map_of (q # r) = (map_of (q # m))(fst p \<mapsto> snd p)"
      using ih(4) after by (cases q) (auto simp: fun_upd_twist)
    from okr ih(2,3) upd after show ?thesis
      unfolding m' by (auto simp: handles_Cons)
  next
    case same
    with Cons.prems(2) have "m' = q # m" by (simp add: word_sless_alt)
    with same Cons.prems(1) show ?thesis by (auto simp: handles_Cons)
  qed
qed

text \<open>The iterator that \<^verbatim>\<open>emplace_hint\<close> returns points to an element with the new key.\<close>

lemma statsCalcCreate_eq:
  "statsCalcCreate m =
     (let key = (if m = [] then 0 else fst (last m) + 1)
      in (key, snd (emplace_hint (key, StatsCalculator_new) m)))"
proof -
  define key :: handle where "key = (if m = [] then 0 else fst (last m) + 1)"
  obtain i m' where e: "emplace_hint (key, StatsCalculator_new :: 'a StatsCalculator) m = (i, m')"
    by (cases "emplace_hint (key, StatsCalculator_new :: 'a StatsCalculator) m")
  from emplace_hint_pos [OF e] have k: "fst (m' ! i) = key" by simp
  have "statsCalcCreate m = (fst (m' ! i), m')"
    using e by (cases "m = []") (auto simp: statsCalcCreate_def empty_map_def rbegin_def key_def)
  with k e show ?thesis
    unfolding key_def by (simp add: Let_def)
qed

text \<open>On a well-formed map, destroying a handle removes exactly the entry with that key.\<close>

lemma statsCalcDestroy_Nil: "statsCalcDestroy h [] = []"
  by (simp add: statsCalcDestroy_def end_map_def)

lemma statsCalcDestroy_Cons:
  "statsCalcDestroy h (p # m) = (if fst p = h then m else p # statsCalcDestroy h m)"
  by (simp add: statsCalcDestroy_def end_map_def erase_def Let_def)

lemma statsCalcDestroy_absent: "h \<notin> handles m \<Longrightarrow> statsCalcDestroy h m = m"
  by (simp add: statsCalcDestroy_def end_map_def find_map_end_iff)

lemma statsCalcDestroy_handles:
  "map_ok m \<Longrightarrow> handles (statsCalcDestroy h m) = handles m - {h} \<and> map_ok (statsCalcDestroy h m)"
proof (induction m)
  case Nil
  then show ?case by (simp add: statsCalcDestroy_Nil handles_def)
next
  case (Cons p m)
  from Cons.prems have gt: "\<forall>k \<in> handles m. sint (fst p) < sint k" and ok: "map_ok m"
    by (simp_all add: map_ok_Cons)
  show ?case
  proof (cases "fst p = h")
    case True
    with gt have "h \<notin> handles m" by auto
    with True ok show ?thesis by (auto simp: statsCalcDestroy_Cons handles_Cons)
  next
    case False
    with Cons.IH [OF ok] gt show ?thesis
      by (auto simp: statsCalcDestroy_Cons handles_Cons map_ok_Cons)
  qed
qed

lemma statsCalcDestroy_other:
  "k \<noteq> h \<Longrightarrow> map_of (statsCalcDestroy h m) k = map_of m k"
  by (induction m) (auto simp: statsCalcDestroy_Cons statsCalcDestroy_Nil)

text \<open>
  Creation when the greatest live handle is below \<open>INT_MAX\<close>: the addition does not
  overflow, the new key is above every live one and the new element goes to the back.
\<close>

lemma Max_handles:
  assumes "map_ok m" and "m \<noteq> []"
  shows "Max (sint ` handles m) = sint (fst (last m))"
proof (rule Max_eqI)
  show "finite (sint ` handles m)" by (simp add: handles_def)
next
  fix y assume "y \<in> sint ` handles m"
  then obtain q where "q \<in> set m" and "y = sint (fst q)" by (auto simp: handles_def)
  with last_is_max [OF assms(1)] show "y \<le> sint (fst (last m))" by simp
next
  from assms(2) have "last m \<in> set m" by simp
  then show "sint (fst (last m)) \<in> sint ` handles m" by (auto simp: handles_def)
qed

lemma statsCalcCreate_below_max:
  assumes ok: "map_ok m" and below: "\<forall>k \<in> handles m. sint k < INT_MAX"
  defines "key \<equiv> (if m = [] then 0 else fst (last m) + 1)"
  shows "statsCalcCreate m = (key, m @ [(key, StatsCalculator_new)])"
    and "\<forall>k \<in> handles m. sint k < sint key"
    and "m \<noteq> [] \<Longrightarrow> sint key = sint (fst (last m)) + 1"
proof -
  show step: "m \<noteq> [] \<Longrightarrow> sint key = sint (fst (last m)) + 1"
  proof -
    assume ne: "m \<noteq> []"
    then have "last m \<in> set m" by simp
    then have "fst (last m) \<in> handles m" by (auto simp: handles_def)
    with below have "sint (fst (last m)) < 2147483647" by (auto simp: INT_MAX_def)
    then have "sint (fst (last m) + 1) = sint (fst (last m)) + 1" by (rule sint_succ)
    with ne show ?thesis by (simp add: key_def)
  qed
  show above: "\<forall>k \<in> handles m. sint k < sint key"
  proof
    fix k assume k: "k \<in> handles m"
    then have ne: "m \<noteq> []" by (auto simp: handles_def)
    from k obtain q where "q \<in> set m" and "k = fst q" by (auto simp: handles_def)
    with last_is_max [OF ok] have "sint k \<le> sint (fst (last m))" by simp
    with step [OF ne] show "sint k < sint key" by simp
  qed
  then have "\<forall>q \<in> set m. fst q <s fst (key, StatsCalculator_new :: 'a StatsCalculator)"
    by (auto simp: handles_def word_sless_alt)
  then have "emplace_hint (key, StatsCalculator_new :: 'a StatsCalculator) m
      = (length m, m @ [(key, StatsCalculator_new)])"
    by (rule emplace_hint_back)
  then show "statsCalcCreate m = (key, m @ [(key, StatsCalculator_new)])"
    by (simp add: statsCalcCreate_eq key_def Let_def)
qed

lemma statsCalcDestroy_back:
  "h \<notin> handles m \<Longrightarrow> statsCalcDestroy h (m @ [(h, c)]) = m"
  by (induction m) (auto simp: statsCalcDestroy_Cons statsCalcDestroy_Nil handles_Cons)

lemma map_of_back:
  "h \<notin> handles m \<Longrightarrow> map_of (m @ [(h, c)]) = (map_of m)(h \<mapsto> c)"
  by (induction m) (auto simp: handles_Cons fun_upd_twist)

text \<open>Creation never touches an element that is there, whatever key it computes.\<close>

lemma statsCalcCreate_general:
  assumes "map_ok m"
  shows "map_ok (snd (statsCalcCreate m))"
    and "k \<in> handles m \<Longrightarrow> map_of (snd (statsCalcCreate m)) k = map_of m k"
proof -
  define key :: handle where "key = (if m = [] then 0 else fst (last m) + 1)"
  define i where "i = fst (emplace_hint (key, StatsCalculator_new :: 'a StatsCalculator) m)"
  define m' where "m' = snd (emplace_hint (key, StatsCalculator_new :: 'a StatsCalculator) m)"
  have e: "emplace_hint (key, StatsCalculator_new) m = (i, m')"
    by (simp add: i_def m'_def)
  have s: "snd (statsCalcCreate m) = m'"
    by (simp add: statsCalcCreate_eq key_def m'_def Let_def)
  note g = emplace_hint_general [OF assms e]
  from g show "map_ok (snd (statsCalcCreate m))" by (simp add: s)
  show "map_of (snd (statsCalcCreate m)) k = map_of m k" if k: "k \<in> handles m"
  proof (cases "key \<in> handles m")
    case True
    with g show ?thesis by (simp add: s)
  next
    case False
    with g have "map_of m' = (map_of m)(key \<mapsto> StatsCalculator_new)" by simp
    with False k show ?thesis by (auto simp: s)
  qed
qed

text \<open>The lookup of a handle that is not live throws.\<close>

lemma at_map_absent: "h \<notin> handles m \<Longrightarrow> at_map h m = Inl out_of_range"
  by (simp add: at_map_def end_map_def find_map_end_iff)

section \<open>Facts about sequences of calls\<close>

text \<open>Appending and reading change mapped values only: the sequence of keys stays.\<close>

lemma at_map_Inr: "at_map h m = Inr pos \<Longrightarrow> pos < length m"
  using find_map_le [of h m]
  by (auto simp: at_map_def end_map_def Let_def split: if_splits)

lemma keys_update: "pos < length m \<Longrightarrow> map fst (m[pos := (fst (m ! pos), x)]) = map fst m"
  by (simp add: map_update list_update_same_conv)

lemma keys_AppendValue: "map fst (statsCalcAppendValue h v m) = map fst m"
  by (auto simp: statsCalcAppendValue_def keys_update dest: at_map_Inr split: sum.splits exn.splits)

lemma keys_ReadFile: "map fst (statsCalcReadFile tokens h f m) = map fst m"
  by (auto simp: statsCalcReadFile_def keys_update dest: at_map_Inr split: sum.splits exn.splits)

lemma same_keys:
  assumes "map fst m' = map fst m"
  shows "handles m' = handles m" and "map_ok m' = map_ok m"
    and "m' = [] \<longleftrightarrow> m = []" and "m \<noteq> [] \<Longrightarrow> fst (last m') = fst (last m)"
proof -
  show "handles m' = handles m"
    using assms by (metis handles_def set_map)
  show "map_ok m' = map_ok m"
    using assms by (simp add: map_ok_keys)
  show e: "m' = [] \<longleftrightarrow> m = []"
    using assms by (metis map_is_Nil_conv)
  show "fst (last m') = fst (last m)" if "m \<noteq> []"
    using that e assms by (metis last_map)
qed

lemma statsCalcWriteStats_map: "snd (statsCalcWriteStats fp h f m) = m"
  by (simp add: statsCalcWriteStats_def split: sum.splits exn.splits)

lemma exec_keeps_keys: "keeps_keys c \<Longrightarrow> map fst (exec tokens c m) = map fst m"
  by (cases c) (simp_all add: keys_AppendValue keys_ReadFile)

lemma in_range_create:
  assumes w: "in_range n m" and n: "n < 2147483648"
  shows "in_range (Suc n) (snd (statsCalcCreate m))"
    and "0 \<le> sint (fst (statsCalcCreate m))"
    and "sint (fst (statsCalcCreate m)) < int (Suc n)"
    and "\<forall>k \<in> handles m. sint k < sint (fst (statsCalcCreate m))"
    and "fst (statsCalcCreate m) \<in> handles (snd (statsCalcCreate m))"
    and "handles m \<subseteq> handles (snd (statsCalcCreate m))"
proof -
  define key :: handle where "key = (if m = [] then 0 else fst (last m) + 1)"
  from w have ok: "map_ok m" and rng: "\<forall>k \<in> handles m. 0 \<le> sint k \<and> sint k < int n"
    by (simp_all add: in_range_def)
  from rng n have below: "\<forall>k \<in> handles m. sint k < INT_MAX"
    by (auto simp: INT_MAX_def)
  note c = statsCalcCreate_below_max [OF ok below, folded key_def]
  have key0: "0 \<le> sint key \<and> sint key < int (Suc n)"
  proof (cases "m = []")
    case True
    then show ?thesis by (simp add: key_def)
  next
    case False
    then have "last m \<in> set m" by simp
    then have "fst (last m) \<in> handles m" by (auto simp: handles_def)
    with rng have "0 \<le> sint (fst (last m)) \<and> sint (fst (last m)) < int n" by simp
    with c(3) [OF False] show ?thesis by simp
  qed
  have h': "handles (m @ [(key, StatsCalculator_new)]) = insert key (handles m)"
    by (simp add: handles_def)
  have ok': "map_ok (m @ [(key, StatsCalculator_new)])"
    using ok c(2) by (auto simp: map_ok_def sorted_wrt_append handles_def word_sless_alt)
  show "in_range (Suc n) (snd (statsCalcCreate m))"
    using ok' h' key0 rng by (auto simp: in_range_def c(1))
  show "0 \<le> sint (fst (statsCalcCreate m))" using key0 by (simp add: c(1))
  show "sint (fst (statsCalcCreate m)) < int (Suc n)" using key0 by (simp add: c(1))
  show "\<forall>k \<in> handles m. sint k < sint (fst (statsCalcCreate m))" using c(2) by (simp add: c(1))
  show "fst (statsCalcCreate m) \<in> handles (snd (statsCalcCreate m))" by (simp add: c(1) h')
  show "handles m \<subseteq> handles (snd (statsCalcCreate m))" by (auto simp: c(1) h')
qed

lemma in_range_destroy: "in_range n m \<Longrightarrow> in_range n (statsCalcDestroy h m)"
  using statsCalcDestroy_handles [of m h] by (auto simp: in_range_def)

lemma in_range_keeps_keys: "keeps_keys c \<Longrightarrow> in_range n m \<Longrightarrow> in_range n (exec tokens c m)"
  using same_keys(1,2) [OF exec_keeps_keys, of c tokens m] by (simp add: in_range_def)

lemma call_cases:
  obtains (create) "c = Create" | (destroy) h where "c = Destroy h" | (other) "keeps_keys c"
  by (cases c) auto

lemma created_keeps_keys:
  "keeps_keys c \<Longrightarrow> created tokens (c # cs) m = created tokens cs (exec tokens c m)"
  by (cases c) simp_all

lemma creates_keeps_keys: "keeps_keys c \<Longrightarrow> creates (c # cs) = creates cs"
  by (cases c) simp_all

lemma run_in_range:
  "in_range n m \<Longrightarrow> n + creates cs \<le> 2147483648 \<Longrightarrow>
     in_range (n + creates cs) (run tokens cs m) \<and>
     (\<forall>h \<in> set (created tokens cs m). 0 \<le> sint h \<and> sint h < int (n + creates cs))"
proof (induction cs arbitrary: n m)
  case Nil
  then show ?case by simp
next
  case (Cons c cs)
  show ?case
  proof (cases c rule: call_cases)
    case create
    from Cons.prems(2) create have n: "n < 2147483648" and n': "Suc n + creates cs \<le> 2147483648"
      by simp_all
    note w = in_range_create [OF Cons.prems(1) n]
    from Cons.IH [OF w(1) n'] w(2,3) show ?thesis
      unfolding create by (auto simp: less_imp_le)
  next
    case (destroy h)
    from Cons.prems(2) destroy have n': "n + creates cs \<le> 2147483648" by simp
    from Cons.IH [OF in_range_destroy [OF Cons.prems(1)] n', of h] show ?thesis
      unfolding destroy by simp
  next
    case other
    from Cons.prems(2) other have n': "n + creates cs \<le> 2147483648"
      by (simp add: creates_keeps_keys)
    from Cons.IH [OF in_range_keeps_keys [OF other Cons.prems(1)] n', of tokens] show ?thesis
      by (simp add: created_keeps_keys [OF other] creates_keeps_keys [OF other])
  qed
qed

lemma never_destroys_max_keeps_keys:
  "keeps_keys c \<Longrightarrow>
     never_destroys_max tokens (c # cs) m = never_destroys_max tokens cs (exec tokens c m)"
  by (cases c) simp_all

lemma created_increasing:
  "in_range n m \<Longrightarrow> n + creates cs \<le> 2147483648 \<Longrightarrow> never_destroys_max tokens cs m \<Longrightarrow>
     sorted_wrt (\<lambda>a b. sint a < sint b) (created tokens cs m) \<and>
     (\<forall>h \<in> set (created tokens cs m). \<forall>k \<in> handles m. sint k < sint h)"
proof (induction cs arbitrary: n m)
  case Nil
  then show ?case by simp
next
  case (Cons c cs)
  show ?case
  proof (cases c rule: call_cases)
    case create
    from Cons.prems(2) create have n: "n < 2147483648" and n': "Suc n + creates cs \<le> 2147483648"
      by simp_all
    from Cons.prems(3) create have nd: "never_destroys_max tokens cs (snd (statsCalcCreate m))"
      by simp
    note w = in_range_create [OF Cons.prems(1) n]
    note ih = Cons.IH [OF w(1) n' nd]
    from ih w(5) have later: "\<forall>h \<in> set (created tokens cs (snd (statsCalcCreate m))).
        sint (fst (statsCalcCreate m)) < sint h"
      by blast
    from ih w(6) have old: "\<forall>h \<in> set (created tokens cs (snd (statsCalcCreate m))).
        \<forall>k \<in> handles m. sint k < sint h"
      by blast
    from ih later old w(4) show ?thesis
      unfolding create by simp
  next
    case (destroy h)
    from Cons.prems(2) destroy have n': "n + creates cs \<le> 2147483648" by simp
    from Cons.prems(3) destroy
    have keep: "m = [] \<or> h \<noteq> fst (last m)"
      and nd: "never_destroys_max tokens cs (statsCalcDestroy h m)"
      by (simp_all add: empty_map_def rbegin_def)
    from Cons.prems(1) have ok: "map_ok m" by (simp add: in_range_def)
    note hs = statsCalcDestroy_handles [OF ok, of h]
    note ih = Cons.IH [OF in_range_destroy [OF Cons.prems(1)] n' nd]
    have "sint k < sint g"
      if g: "g \<in> set (created tokens cs (statsCalcDestroy h m))" and k: "k \<in> handles m" for g k
    proof -
      from k have ne: "m \<noteq> []" by (auto simp: handles_def)
      then have "last m \<in> set m" by simp
      then have top: "fst (last m) \<in> handles m" by (auto simp: handles_def)
      from keep ne have "fst (last m) \<noteq> h" by auto
      with top hs have "fst (last m) \<in> handles (statsCalcDestroy h m)" by simp
      with ih g have above: "sint (fst (last m)) < sint g" by blast
      from k obtain q where "q \<in> set m" and "k = fst q" by (auto simp: handles_def)
      with last_is_max [OF ok] have "sint k \<le> sint (fst (last m))" by simp
      with above show ?thesis by simp
    qed
    with ih show ?thesis
      unfolding destroy by simp
  next
    case other
    from Cons.prems(2) other have n': "n + creates cs \<le> 2147483648"
      by (simp add: creates_keeps_keys)
    from Cons.prems(3) other have nd: "never_destroys_max tokens cs (exec tokens c m)"
      by (simp add: never_destroys_max_keeps_keys)
    from Cons.IH [OF in_range_keeps_keys [OF other Cons.prems(1)] n' nd]
      same_keys(1) [OF exec_keeps_keys [OF other], of tokens m]
    show ?thesis
      by (simp add: created_keeps_keys [OF other])
  qed
qed

text \<open>Running a sequence in two parts.\<close>

lemma run_append: "run tokens (xs @ ys) m = run tokens ys (run tokens xs m)"
  by (induction xs arbitrary: m) simp_all

text \<open>The walk up: after \<open>climb n\<close> the only live handle is \<open>n\<close>.\<close>

lemma sint_of_nat_handle: "n < 2147483648 \<Longrightarrow> sint (of_nat n :: handle) = int n"
  by (simp add: signed_of_nat signed_take_bit_int_eq_self)

lemma climb_Suc: "climb (Suc n) = climb n @ [Create, Destroy (of_nat n)]"
  by (simp add: climb_def)

lemma climb_step:
  assumes "n < 2147483647"
  shows "run tokens [Create, Destroy (of_nat n)] [(of_nat n, StatsCalculator_new)]
           = [(of_nat (Suc n), StatsCalculator_new)]"
proof -
  let ?m = "[(of_nat n, StatsCalculator_new :: 'a StatsCalculator)]"
  from assms have s: "sint (of_nat n :: handle) = int n" by (simp add: sint_of_nat_handle)
  have ok: "map_ok ?m" by (simp add: map_ok_def)
  have below: "\<forall>k \<in> handles ?m. sint k < INT_MAX"
    using assms by (simp add: handles_def s INT_MAX_def)
  from statsCalcCreate_below_max(1) [OF ok below]
  have c: "statsCalcCreate ?m = (of_nat (Suc n), ?m @ [(of_nat (Suc n), StatsCalculator_new)])"
    by simp
  have "of_nat n \<noteq> (of_nat (Suc n) :: handle)" by simp
  then show ?thesis
    by (simp add: c statsCalcDestroy_Cons)
qed

lemma climb_reaches:
  "n < 2147483648 \<Longrightarrow> run tokens (climb n) [] = [(of_nat n, StatsCalculator_new)]"
proof (induction n)
  case 0
  then show ?case
    by (simp add: climb_def statsCalcCreate_def empty_map_def)
next
  case (Suc n)
  then have "run tokens (climb n) [] = [(of_nat n, StatsCalculator_new)]" and "n < 2147483647"
    by simp_all
  then show ?case
    by (simp only: climb_Suc run_append climb_step)
qed

text \<open>Looking up a live handle, and what a run does to the instance under it.\<close>

lemma lookup_live:
  "map_of m h = Some c \<Longrightarrow> at_map h m = Inr (find_map h m) \<and> m ! find_map h m = (h, c)"
proof (induction m)
  case Nil
  then show ?case by simp
next
  case (Cons p m)
  show ?case
  proof (cases "fst p = h")
    case True
    with Cons.prems show ?thesis
      by (cases p) (simp add: at_map_def end_map_def)
  next
    case False
    with Cons.prems have "map_of m h = Some c" by (cases p) simp
    from Cons.IH [OF this] False show ?thesis
      by (auto simp: at_map_def end_map_def Let_def split: if_splits)
  qed
qed

lemma map_of_update_live:
  "map_of m h = Some c \<Longrightarrow> map_of (m[find_map h m := (h, x)]) = (map_of m)(h \<mapsto> x)"
proof (induction m)
  case Nil
  then show ?case by simp
next
  case (Cons p m)
  show ?case
  proof (cases "fst p = h")
    case True
    then show ?thesis by (cases p) (simp add: fun_eq_iff)
  next
    case False
    with Cons.prems have "map_of m h = Some c" by (cases p) simp
    from Cons.IH [OF this] False show ?thesis
      by (cases p) (auto simp: fun_upd_twist)
  qed
qed

lemma map_of_AppendValue:
  assumes "map_of m h = Some c"
  shows "map_of (statsCalcAppendValue k v m) h = Some (if k = h then appendValue v c else c)"
proof (cases "map_of m k")
  case None
  then have "k \<notin> handles m" by (simp add: map_of_None_iff)
  then have "statsCalcAppendValue k v m = m"
    by (simp add: statsCalcAppendValue_def at_map_absent)
  with assms None show ?thesis by auto
next
  case (Some c')
  from lookup_live [OF Some]
  have "statsCalcAppendValue k v m = m[find_map k m := (k, appendValue v c')]"
    by (simp add: statsCalcAppendValue_def)
  with map_of_update_live [OF Some] assms Some show ?thesis by auto
qed

lemma map_of_ReadFile:
  assumes "map_of m h = Some c"
  shows "map_of (statsCalcReadFile tokens k f m) h
           = Some (if k = h then readFile tokens f c else c)"
proof (cases "map_of m k")
  case None
  then have "k \<notin> handles m" by (simp add: map_of_None_iff)
  then have "statsCalcReadFile tokens k f m = m"
    by (simp add: statsCalcReadFile_def at_map_absent)
  with assms None show ?thesis by auto
next
  case (Some c')
  from lookup_live [OF Some]
  have "statsCalcReadFile tokens k f m = m[find_map k m := (k, readFile tokens f c')]"
    by (simp add: statsCalcReadFile_def)
  with map_of_update_live [OF Some] assms Some show ?thesis by auto
qed

lemma exec_map_ok: "map_ok m \<Longrightarrow> map_ok (exec tokens c m)"
proof (cases c rule: call_cases)
  case create
  assume "map_ok m"
  then show ?thesis unfolding create by (simp add: statsCalcCreate_general(1))
next
  case (destroy h)
  assume "map_ok m"
  then show ?thesis unfolding destroy by (simp add: statsCalcDestroy_handles)
next
  case other
  assume "map_ok m"
  then show ?thesis using same_keys(2) [OF exec_keeps_keys [OF other], of tokens m] by simp
qed

lemma run_appended:
  "map_ok m \<Longrightarrow> map_of m h = Some c \<Longrightarrow> Destroy h \<notin> set cs \<Longrightarrow>
     map_of (run tokens cs m) h
       = Some (c\<lparr>numericValues := numericValues c @ appended tokens h cs\<rparr>)"
proof (induction cs arbitrary: m c)
  case Nil
  then show ?case by simp
next
  case (Cons a cs)
  from Cons.prems(3) have rest: "Destroy h \<notin> set cs" and a: "a \<noteq> Destroy h" by auto
  note ok = exec_map_ok [OF Cons.prems(1), of tokens a]
  from Cons.prems(2) have live: "h \<in> handles m"
    using map_of_None_iff [of m h] by auto
  show ?case
  proof (cases a)
    case Create
    have "map_of (exec tokens a m) h = Some c"
      unfolding Create using statsCalcCreate_general(2) [OF Cons.prems(1) live] Cons.prems(2)
      by simp
    from Cons.IH [OF ok this rest] show ?thesis by (simp add: Create)
  next
    case (Destroy k)
    with a have "h \<noteq> k" by auto
    then have "map_of (exec tokens a m) h = Some c"
      unfolding Destroy using Cons.prems(2) by (simp add: statsCalcDestroy_other)
    from Cons.IH [OF ok this rest] show ?thesis by (simp add: Destroy)
  next
    case (AppendValue k v)
    have "map_of (exec tokens a m) h = Some (if k = h then appendValue v c else c)"
      unfolding AppendValue using map_of_AppendValue [OF Cons.prems(2)] by simp
    from Cons.IH [OF ok this rest] show ?thesis
      by (simp add: AppendValue appendValue_def)
  next
    case (ReadFile k f)
    have "map_of (exec tokens a m) h = Some (if k = h then readFile tokens f c else c)"
      unfolding ReadFile using map_of_ReadFile [OF Cons.prems(2)] by simp
    from Cons.IH [OF ok this rest] show ?thesis
      by (simp add: ReadFile readFile_def)
  next
    case (WriteStats k f)
    from Cons.IH [OF Cons.prems(1,2) rest] show ?thesis by (simp add: WriteStats)
  next
    case (GetSum k)
    from Cons.IH [OF Cons.prems(1,2) rest] show ?thesis by (simp add: GetSum)
  next
    case (GetMean k)
    from Cons.IH [OF Cons.prems(1,2) rest] show ?thesis by (simp add: GetMean)
  next
    case (GetStdDev k)
    from Cons.IH [OF Cons.prems(1,2) rest] show ?thesis by (simp add: GetStdDev)
  qed
qed

lemma query_live:
  assumes "map_of m h = Some c"
  shows "statsCalcGetSum fp h m = getSum fp c"
    and "statsCalcGetMean fp h m = getMean fp c"
    and "statsCalcGetStdDev fp h m = getStandardDeviation fp c"
  using lookup_live [OF assms]
  by (simp_all add: statsCalcGetSum_def statsCalcGetMean_def statsCalcGetStdDev_def)

text \<open>
  The registry whose only live handle is \<open>INT_MAX\<close> is reached from the empty one, and
  one creation and one append later both \<open>INT_MIN\<close> and \<open>INT_MAX\<close> are live.
\<close>

lemma climb_to_INT_MAX:
  "run tokens (climb 2147483647) [] = [(2147483647, StatsCalculator_new)]"
proof -
  have "(2147483647 :: nat) < 2147483648" by simp
  then have "run tokens (climb 2147483647) [] = [(of_nat 2147483647, StatsCalculator_new)]"
    by (rule climb_reaches)
  then show ?thesis by simp
qed

lemma statsCalcCreate_wraps:
  "statsCalcCreate [(2147483647, StatsCalculator_new)]
     = (- 2147483648, [(- 2147483648, StatsCalculator_new), (2147483647, StatsCalculator_new)])"
  by (simp add: statsCalcCreate_def empty_map_def rbegin_def)

lemma climb_past_INT_MAX:
  "run tokens (climb 2147483647 @ [Create, AppendValue (- 2147483648) v]) []
     = [(- 2147483648, \<lparr>numericValues = [v]\<rparr>), (2147483647, StatsCalculator_new)]"
proof -
  have "statsCalcAppendValue (- 2147483648) v
      [(- 2147483648, StatsCalculator_new), (2147483647, StatsCalculator_new)]
      = [(- 2147483648, \<lparr>numericValues = [v]\<rparr>), (2147483647, StatsCalculator_new)]"
    by (simp add: statsCalcAppendValue_def at_map_def end_map_def appendValue_def
        StatsCalculator_new_def)
  then show ?thesis
    by (simp add: run_append climb_to_INT_MAX statsCalcCreate_wraps)
qed

section \<open>Handle assignment\<close>

text \<open>
  Where the addition does not overflow the code does what its documentation says. For
  every registry state whose live handles are all below \<open>INT_MAX\<close>, \<^verbatim>\<open>statsCalcCreate\<close>
  returns 0 when the registry is empty and the greatest live handle plus 1 otherwise; the
  handle was not live, and the registry afterwards is the one before with a fresh empty
  accumulator under that handle.
\<close>

lemma statsCalcCreate_next_handle:
  assumes "map_ok m" and "\<forall>k \<in> handles m. sint k < INT_MAX"
    and "statsCalcCreate m = (h, m')"
  shows "(m = [] \<longrightarrow> h = 0) \<and>
         (m \<noteq> [] \<longrightarrow> sint h = Max (sint ` handles m) + 1) \<and>
         h \<notin> handles m \<and>
         map_of m' = (map_of m)(h \<mapsto> StatsCalculator_new) \<and>
         map_option numericValues (map_of m' h) = Some []"
proof -
  define key :: handle where "key = (if m = [] then 0 else fst (last m) + 1)"
  note c = statsCalcCreate_below_max [OF assms(1,2), folded key_def]
  from c(1) assms(3) have h: "h = key" and m': "m' = m @ [(key, StatsCalculator_new)]"
    by simp_all
  from c(2) have fresh: "key \<notin> handles m" by auto
  have "m = [] \<longrightarrow> h = 0" by (simp add: h key_def)
  moreover have "m \<noteq> [] \<longrightarrow> sint h = Max (sint ` handles m) + 1"
    using c(3) Max_handles [OF assms(1)] by (simp add: h)
  moreover have "h \<notin> handles m" using fresh by (simp add: h)
  moreover have ins: "map_of m' = (map_of m)(h \<mapsto> StatsCalculator_new)"
    unfolding m' h using fresh by (rule map_of_back)
  moreover have "map_option numericValues (map_of m' h) = Some []"
    by (simp add: ins StatsCalculator_new_def)
  ultimately show ?thesis by blast
qed

lemma statsCalcCreate_next_handle_example:
  "statsCalcCreate [(0, \<lparr>numericValues = [2 :: real]\<rparr>), (3, StatsCalculator_new)]
     = (4, [(0, \<lparr>numericValues = [2]\<rparr>), (3, StatsCalculator_new), (4, StatsCalculator_new)]) \<and>
   sint (4 :: handle) = Max (sint ` handles [(0, \<lparr>numericValues = [2 :: real]\<rparr>), (3, StatsCalculator_new)]) + 1 \<and>
   fst (statsCalcCreate ([] :: real statsmap)) = 0"
proof -
  let ?m = "[(0, \<lparr>numericValues = [2 :: real]\<rparr>), (3, StatsCalculator_new)]"
  let ?m' = "[(0, \<lparr>numericValues = [2 :: real]\<rparr>), (3, StatsCalculator_new), (4, StatsCalculator_new)]"
  have ok: "map_ok ?m" by (simp add: map_ok_def word_sless_alt)
  have below: "\<forall>k \<in> handles ?m. sint k < INT_MAX" by (simp add: handles_def INT_MAX_def)
  have run: "statsCalcCreate ?m = (4, ?m')"
    by (simp add: statsCalcCreate_def empty_map_def rbegin_def word_sless_alt)
  have ok0: "map_ok ([] :: real statsmap)" by (simp add: map_ok_def)
  have below0: "\<forall>k \<in> handles ([] :: real statsmap). sint k < INT_MAX" by (simp add: handles_def)
  have run0: "statsCalcCreate ([] :: real statsmap)
      = (fst (statsCalcCreate ([] :: real statsmap)), snd (statsCalcCreate ([] :: real statsmap)))"
    by simp
  from statsCalcCreate_next_handle [OF ok below run]
  have a: "sint (4 :: handle) = Max (sint ` handles ?m) + 1" by blast
  from statsCalcCreate_next_handle [OF ok0 below0 run0]
  have b: "fst (statsCalcCreate ([] :: real statsmap)) = 0" by blast
  from run a b show ?thesis by blast
qed

text \<open>
  C1. The claim, like the documentation of \<^verbatim>\<open>statsCalcCreate\<close> (a new key one greater than
  the highest key stored), asks for the greatest live handle plus 1 in every non-empty
  registry state. The code misses it in the registry whose only live handle is
  \<open>INT_MAX\<close>, a well-formed map that the walk \<open>climb 2147483647\<close> reaches from the empty
  registry: there the greatest live handle plus 1 is 2147483648, the unguarded addition
  overflows, and the handle returned is \<open>INT_MIN\<close>.
\<close>

theorem statsCalcCreate_at_INT_MAX:
  "run (\<lambda>f. []) (climb 2147483647) ([] :: real statsmap)
     = [(2147483647, StatsCalculator_new)] \<and>
   map_ok [(2147483647, StatsCalculator_new :: real StatsCalculator)] \<and>
   sint (fst (statsCalcCreate [(2147483647, StatsCalculator_new :: real StatsCalculator)]))
     = - 2147483648 \<and>
   Max (sint ` handles [(2147483647, StatsCalculator_new :: real StatsCalculator)]) + 1
     = 2147483648"
proof -
  have "map_ok [(2147483647, StatsCalculator_new :: real StatsCalculator)] \<and>
      sint (fst (statsCalcCreate [(2147483647, StatsCalculator_new :: real StatsCalculator)]))
        = - 2147483648 \<and>
      Max (sint ` handles [(2147483647, StatsCalculator_new :: real StatsCalculator)]) + 1
        = 2147483648"
    by (simp add: map_ok_def handles_def statsCalcCreate_def empty_map_def rbegin_def)
  with climb_to_INT_MAX [of "\<lambda>f. []"] show ?thesis by blast
qed

section \<open>Unknown handles\<close>

text \<open>
  C2. For a handle that is not live, \<^verbatim>\<open>at\<close> throws \<^verbatim>\<open>std::out_of_range\<close> and every
  function returns from its \<^verbatim>\<open>catch\<close> clause: appending a value and reading a file leave
  the registry as it is, writing the statistics writes no file and leaves the registry as
  it is, the three queries return 0.0, and destroying is a no-op.
\<close>

theorem unknown_handle_is_swallowed:
  assumes "h \<notin> handles m"
  shows "statsCalcAppendValue h v m = m \<and>
         statsCalcReadFile tokens h f m = m \<and>
         statsCalcWriteStats fp h f m = (None, m) \<and>
         statsCalcGetSum fp h m = d_zero fp \<and>
         statsCalcGetMean fp h m = d_zero fp \<and>
         statsCalcGetStdDev fp h m = d_zero fp \<and>
         statsCalcDestroy h m = m"
proof -
  note a = at_map_absent [OF assms]
  have "statsCalcAppendValue h v m = m"
    by (simp add: statsCalcAppendValue_def a)
  moreover have "statsCalcReadFile tokens h f m = m"
    by (simp add: statsCalcReadFile_def a)
  moreover have "statsCalcWriteStats fp h f m = (None, m)"
    by (simp add: statsCalcWriteStats_def a)
  moreover have "statsCalcGetSum fp h m = d_zero fp"
    by (simp add: statsCalcGetSum_def a)
  moreover have "statsCalcGetMean fp h m = d_zero fp"
    by (simp add: statsCalcGetMean_def a)
  moreover have "statsCalcGetStdDev fp h m = d_zero fp"
    by (simp add: statsCalcGetStdDev_def a)
  moreover have "statsCalcDestroy h m = m"
    using assms by (rule statsCalcDestroy_absent)
  ultimately show ?thesis by blast
qed

theorem unknown_handle_is_swallowed_witness:
  "statsCalcAppendValue 999 5 [(0, \<lparr>numericValues = [2 :: real]\<rparr>)] = [(0, \<lparr>numericValues = [2]\<rparr>)] \<and>
   statsCalcReadFile (\<lambda>f. [1, 3]) 999 ''data.txt'' [(0, \<lparr>numericValues = [2 :: real]\<rparr>)]
     = [(0, \<lparr>numericValues = [2]\<rparr>)] \<and>
   statsCalcWriteStats real_ops 999 ''stats.txt'' [(0, \<lparr>numericValues = [2 :: real]\<rparr>)]
     = (None, [(0, \<lparr>numericValues = [2]\<rparr>)]) \<and>
   statsCalcGetSum real_ops 999 [(0, \<lparr>numericValues = [2 :: real]\<rparr>)] = 0 \<and>
   statsCalcGetMean real_ops 999 [(0, \<lparr>numericValues = [2 :: real]\<rparr>)] = 0 \<and>
   statsCalcGetStdDev real_ops 999 [(0, \<lparr>numericValues = [2 :: real]\<rparr>)] = 0 \<and>
   statsCalcDestroy 999 [(0, \<lparr>numericValues = [2 :: real]\<rparr>)] = [(0, \<lparr>numericValues = [2]\<rparr>)]"
proof -
  have absent: "(999 :: handle) \<notin> handles [(0, \<lparr>numericValues = [2 :: real]\<rparr>)]"
    by (simp add: handles_def)
  have zero: "d_zero real_ops = 0" by (simp add: real_ops_def)
  from unknown_handle_is_swallowed [OF absent, of 5 "\<lambda>f. [1, 3]" "''data.txt''" real_ops]
    unknown_handle_is_swallowed [OF absent, of 5 "\<lambda>f. [1, 3]" "''stats.txt''" real_ops]
  show ?thesis unfolding zero by blast
qed

section \<open>The order of the handles handed out\<close>

text \<open>
  C3, as amended. Across every sequence of calls from the empty registry with at most
  \<open>2 ^ 31\<close> creations, in which no destruction removes the handle that is the greatest
  live one at that moment, the handles returned by successive \<^verbatim>\<open>statsCalcCreate\<close> calls
  are strictly increasing, and so no handle is returned twice.
\<close>

theorem created_strictly_increasing:
  assumes "creates cs \<le> 2147483648" and "never_destroys_max tokens cs []"
  shows "sorted_wrt (\<lambda>a b. a <s b) (created tokens cs []) \<and> distinct (created tokens cs [])"
proof -
  have start: "in_range 0 ([] :: 'a statsmap)"
    by (simp add: in_range_def map_ok_def handles_def)
  from assms(1) have n: "0 + creates cs \<le> 2147483648" by simp
  from created_increasing [OF start n assms(2)]
  have inc: "sorted_wrt (\<lambda>a b. sint a < sint b) (created tokens cs [])" by simp
  then have "sorted_wrt (<) (map sint (created tokens cs []))"
    by (simp add: sorted_wrt_map)
  then have "distinct (map sint (created tokens cs []))"
    by (simp add: strict_sorted_iff)
  then have "distinct (created tokens cs [])"
    by (simp add: distinct_map)
  with inc show ?thesis by (simp add: word_sless_alt)
qed

theorem created_strictly_increasing_witness:
  "created (\<lambda>f. [1, 3 :: real]) [Create, Create, Destroy 0, AppendValue 1 2, Create, GetSum 2, Create] []
     = [0, 1, 2, 3] \<and>
   sorted_wrt (\<lambda>a b. a <s b)
     (created (\<lambda>f. [1, 3 :: real]) [Create, Create, Destroy 0, AppendValue 1 2, Create, GetSum 2, Create] []) \<and>
   distinct
     (created (\<lambda>f. [1, 3 :: real]) [Create, Create, Destroy 0, AppendValue 1 2, Create, GetSum 2, Create] [])"
proof -
  let ?cs = "[Create, Create, Destroy 0, AppendValue 1 2, Create, GetSum 2, Create] :: real call list"
  let ?tokens = "\<lambda>f :: string. [1, 3 :: real]"
  have few: "creates ?cs \<le> 2147483648" by simp
  have c1: "statsCalcCreate ([] :: real statsmap) = (0, [(0, StatsCalculator_new)])"
    by (simp add: statsCalcCreate_def empty_map_def)
  have c2: "statsCalcCreate [(0, StatsCalculator_new :: real StatsCalculator)]
      = (1, [(0, StatsCalculator_new), (1, StatsCalculator_new)])"
    by (simp add: statsCalcCreate_def empty_map_def rbegin_def word_sless_alt)
  have d: "statsCalcDestroy 0 [(0, StatsCalculator_new :: real StatsCalculator), (1, StatsCalculator_new)]
      = [(1, StatsCalculator_new)]"
    by (simp add: statsCalcDestroy_Cons)
  have a: "statsCalcAppendValue 1 2 [(1, StatsCalculator_new :: real StatsCalculator)]
      = [(1, \<lparr>numericValues = [2]\<rparr>)]"
    by (simp add: statsCalcAppendValue_def at_map_def end_map_def appendValue_def
        StatsCalculator_new_def)
  have c3: "statsCalcCreate [(1, \<lparr>numericValues = [2 :: real]\<rparr>)]
      = (2, [(1, \<lparr>numericValues = [2]\<rparr>), (2, StatsCalculator_new)])"
    by (simp add: statsCalcCreate_def empty_map_def rbegin_def word_sless_alt)
  have c4: "statsCalcCreate [(1, \<lparr>numericValues = [2 :: real]\<rparr>), (2, StatsCalculator_new)]
      = (3, [(1, \<lparr>numericValues = [2]\<rparr>), (2, StatsCalculator_new), (3, StatsCalculator_new)])"
    by (simp add: statsCalcCreate_def empty_map_def rbegin_def word_sless_alt)
  have keep: "never_destroys_max ?tokens ?cs []"
    by (simp add: c1 c2 d a c3 empty_map_def rbegin_def)
  have run: "created ?tokens ?cs [] = [0, 1, 2, 3]"
    by (simp add: c1 c2 d a c3 c4)
  from created_strictly_increasing [OF few keep] run show ?thesis by simp
qed

text \<open>
  A handle is reused: creating, destroying handle 0 and creating again returns handle 0
  both times.
\<close>

theorem created_handle_returned_twice:
  "created (\<lambda>f. []) [Create, Destroy 0, Create] ([] :: real statsmap) = [0, 0]"
  by (simp add: statsCalcCreate_def empty_map_def statsCalcDestroy_Cons)

section \<open>Handle reuse\<close>

text \<open>
  C4. With handle 0 the only live handle (whatever its accumulator holds), destroying
  handle 0 and creating again returns handle 0.
\<close>

theorem destroy_then_create_reuses_zero:
  "fst (statsCalcCreate (statsCalcDestroy 0 [(0, c)])) = 0"
  by (simp add: statsCalcCreate_def statsCalcDestroy_def end_map_def erase_def empty_map_def)

section \<open>Creation followed by destruction\<close>

text \<open>
  Where the addition does not overflow the round trip holds. For every registry state
  whose live handles are all below \<open>INT_MAX\<close>, destroying the handle that
  \<^verbatim>\<open>statsCalcCreate\<close> has just returned gives back the registry as it was before the
  creation: the same live handles, the same accumulator under each, and the same handle
  from the next creation.
\<close>

lemma destroy_after_create_restores:
  assumes "map_ok m" and "\<forall>k \<in> handles m. sint k < INT_MAX"
    and "statsCalcCreate m = (h, m')"
  shows "statsCalcDestroy h m' = m \<and>
         handles (statsCalcDestroy h m') = handles m \<and>
         map_of (statsCalcDestroy h m') = map_of m \<and>
         fst (statsCalcCreate (statsCalcDestroy h m')) = fst (statsCalcCreate m)"
proof -
  define key :: handle where "key = (if m = [] then 0 else fst (last m) + 1)"
  note c = statsCalcCreate_below_max [OF assms(1,2), folded key_def]
  from c(1) assms(3) have h: "h = key" and m': "m' = m @ [(key, StatsCalculator_new)]"
    by simp_all
  from c(2) have "key \<notin> handles m" by auto
  then have "statsCalcDestroy h m' = m"
    unfolding h m' by (rule statsCalcDestroy_back)
  then show ?thesis by simp
qed

lemma destroy_after_create_restores_example:
  "statsCalcDestroy (fst (statsCalcCreate [(0, \<lparr>numericValues = [2 :: real]\<rparr>), (3, StatsCalculator_new)]))
     (snd (statsCalcCreate [(0, \<lparr>numericValues = [2 :: real]\<rparr>), (3, StatsCalculator_new)]))
   = [(0, \<lparr>numericValues = [2 :: real]\<rparr>), (3, StatsCalculator_new)]"
proof -
  let ?m = "[(0, \<lparr>numericValues = [2 :: real]\<rparr>), (3, StatsCalculator_new)]"
  have ok: "map_ok ?m" by (simp add: map_ok_def word_sless_alt)
  have below: "\<forall>k \<in> handles ?m. sint k < INT_MAX" by (simp add: handles_def INT_MAX_def)
  have run: "statsCalcCreate ?m = (fst (statsCalcCreate ?m), snd (statsCalcCreate ?m))" by simp
  from destroy_after_create_restores [OF ok below run] show ?thesis by blast
qed

text \<open>
  C5. The claim asks that destroying the handle just created gives the registry back in
  every state. The code misses it in the registry with both \<open>INT_MIN\<close> and \<open>INT_MAX\<close> live
  (reached from the empty registry by the walk up, one more creation and an append): the
  overflowed key is the live handle \<open>INT_MIN\<close>, so \<^verbatim>\<open>emplace_hint\<close> inserts nothing,
  against the documentation's inserted pair and unique handle, and the destruction removes
  the instance, with its sample, that was there before.
\<close>

theorem destroy_after_create_at_INT_MAX:
  "run (\<lambda>f. []) (climb 2147483647 @ [Create, AppendValue (- 2147483648) 2]) []
     = [(- 2147483648, \<lparr>numericValues = [2 :: real]\<rparr>), (2147483647, StatsCalculator_new)] \<and>
   map_ok [(- 2147483648, \<lparr>numericValues = [2 :: real]\<rparr>), (2147483647, StatsCalculator_new)] \<and>
   statsCalcDestroy
     (fst (statsCalcCreate [(- 2147483648, \<lparr>numericValues = [2 :: real]\<rparr>), (2147483647, StatsCalculator_new)]))
     (snd (statsCalcCreate [(- 2147483648, \<lparr>numericValues = [2 :: real]\<rparr>), (2147483647, StatsCalculator_new)]))
   = [(2147483647, StatsCalculator_new)]"
proof -
  have "map_ok [(- 2147483648, \<lparr>numericValues = [2 :: real]\<rparr>), (2147483647, StatsCalculator_new)] \<and>
      statsCalcDestroy
        (fst (statsCalcCreate [(- 2147483648, \<lparr>numericValues = [2 :: real]\<rparr>), (2147483647, StatsCalculator_new)]))
        (snd (statsCalcCreate [(- 2147483648, \<lparr>numericValues = [2 :: real]\<rparr>), (2147483647, StatsCalculator_new)]))
      = [(2147483647, StatsCalculator_new)]"
    by (simp add: map_ok_def statsCalcCreate_def empty_map_def rbegin_def statsCalcDestroy_def
        end_map_def erase_def)
  with climb_past_INT_MAX [of "\<lambda>f. []" "2 :: real"] show ?thesis by blast
qed

section \<open>The statistics of an instance\<close>

text \<open>
  C6. Take a live handle whose accumulator holds the samples \<open>numericValues c\<close> (none, for
  a fresh one), and any sequence of calls that does not destroy it. Afterwards
  \<^verbatim>\<open>statsCalcGetSum\<close> returns the sum, accumulated left to right from 0.0, of exactly
  those samples followed by the values that the sequence appended to this handle with
  \<^verbatim>\<open>statsCalcAppendValue\<close> and \<^verbatim>\<open>statsCalcReadFile\<close>, in the order of the calls; with no
  samples at all it returns 0.0.
\<close>

theorem getSum_left_to_right:
  assumes "map_ok m" and "map_of m h = Some c" and "Destroy h \<notin> set cs"
  shows "statsCalcGetSum fp h (run tokens cs m)
           = foldl (d_add fp) (d_zero fp) (numericValues c @ appended tokens h cs) \<and>
         (numericValues c @ appended tokens h cs = [] \<longrightarrow>
            statsCalcGetSum fp h (run tokens cs m) = d_zero fp)"
proof -
  from run_appended [OF assms]
  have "map_of (run tokens cs m) h
      = Some (c\<lparr>numericValues := numericValues c @ appended tokens h cs\<rparr>)" .
  from query_live(1) [OF this]
  have "statsCalcGetSum fp h (run tokens cs m)
      = foldl (d_add fp) (d_zero fp) (numericValues c @ appended tokens h cs)"
    by (simp add: getSum_def computeSum_def)
  then show ?thesis by auto
qed

theorem getSum_left_to_right_witness:
  "statsCalcGetSum real_ops 0
     (run (\<lambda>f. [4, 6]) [AppendValue 0 2, Create, ReadFile 0 ''data.txt'', AppendValue 1 5]
        [(0, StatsCalculator_new)]) = 12 \<and>
   statsCalcGetSum real_ops 0 [(0, StatsCalculator_new)] = 0"
proof -
  let ?m = "[(0, StatsCalculator_new :: real StatsCalculator)]"
  let ?cs = "[AppendValue 0 2, Create, ReadFile 0 ''data.txt'', AppendValue 1 5] :: real call list"
  let ?tokens = "\<lambda>f :: string. [4, 6 :: real]"
  have ok: "map_ok ?m" by (simp add: map_ok_def)
  have live: "map_of ?m 0 = Some StatsCalculator_new" by simp
  have keep: "Destroy 0 \<notin> set ?cs" by simp
  have nil: "Destroy 0 \<notin> set ([] :: real call list)" by simp
  from getSum_left_to_right [OF ok live keep, of real_ops ?tokens]
  have a: "statsCalcGetSum real_ops 0 (run ?tokens ?cs ?m) = 12"
    by (simp add: StatsCalculator_new_def real_ops_def)
  from getSum_left_to_right [OF ok live nil, of real_ops ?tokens]
  have b: "statsCalcGetSum real_ops 0 ?m = 0"
    by (simp add: StatsCalculator_new_def real_ops_def)
  from a b show ?thesis by blast
qed

text \<open>
  C7. For a live handle whose accumulator holds at least one sample,
  \<^verbatim>\<open>statsCalcGetMean\<close> returns the sum that \<^verbatim>\<open>statsCalcGetSum\<close> returns divided by the
  number of samples, and \<^verbatim>\<open>statsCalcGetStdDev\<close> returns the square root of the sum of the
  squared deviations from that mean divided by the number of samples: the population
  formula, with the count and not the count minus one as divisor.
\<close>

theorem mean_and_population_deviation:
  assumes "map_of m h = Some c" and "numericValues c \<noteq> []"
  shows "statsCalcGetMean fp h m
           = d_div fp (statsCalcGetSum fp h m) (d_of_size fp (length (numericValues c))) \<and>
         statsCalcGetStdDev fp h m
           = d_sqrt fp (d_div fp
               (foldl (d_add fp) (d_zero fp)
                  (map (\<lambda>x. d_mul fp (d_sub fp x (statsCalcGetMean fp h m))
                                      (d_sub fp x (statsCalcGetMean fp h m)))
                     (numericValues c)))
               (d_of_size fp (length (numericValues c))))"
proof -
  note q = query_live [OF assms(1), of fp]
  have "statsCalcGetMean fp h m
      = d_div fp (statsCalcGetSum fp h m) (d_of_size fp (length (numericValues c)))"
    by (simp add: q getMean_def getSum_def computeMean_def)
  moreover have "statsCalcGetStdDev fp h m
      = d_sqrt fp (d_div fp
          (foldl (d_add fp) (d_zero fp)
             (map (\<lambda>x. d_mul fp (d_sub fp x (statsCalcGetMean fp h m))
                                 (d_sub fp x (statsCalcGetMean fp h m)))
                (numericValues c)))
          (d_of_size fp (length (numericValues c))))"
    by (simp add: q getStandardDeviation_def getMean_def computeStandardDeviation_def Let_def)
  ultimately show ?thesis by blast
qed

theorem mean_and_population_deviation_witness:
  "statsCalcGetSum real_ops 0 [(0, \<lparr>numericValues = [2, 4, 6]\<rparr>)] = 12 \<and>
   statsCalcGetMean real_ops 0 [(0, \<lparr>numericValues = [2, 4, 6]\<rparr>)] = 4 \<and>
   statsCalcGetStdDev real_ops 0 [(0, \<lparr>numericValues = [2, 4, 6]\<rparr>)] = sqrt (8 / 3)"
proof -
  let ?m = "[(0 :: handle, \<lparr>numericValues = [2, 4, 6 :: real]\<rparr>)]"
  have live: "map_of ?m 0 = Some \<lparr>numericValues = [2, 4, 6]\<rparr>" by simp
  have some: "numericValues \<lparr>numericValues = [2, 4, 6 :: real]\<rparr> \<noteq> []" by simp
  have ops: "d_zero real_ops = 0" "d_add real_ops = (+)" "d_sub real_ops = (-)"
    "d_mul real_ops = (*)" "d_div real_ops = (/)" "d_sqrt real_ops = sqrt"
    "d_of_size real_ops = real"
    by (simp_all add: real_ops_def)
  have sum: "statsCalcGetSum real_ops 0 ?m = 12"
    by (simp add: statsCalcGetSum_def at_map_def end_map_def getSum_def computeSum_def ops)
  from mean_and_population_deviation [OF live some, of real_ops]
  have mean: "statsCalcGetMean real_ops 0 ?m = 4"
    by (simp add: sum ops)
  from mean_and_population_deviation [OF live some, of real_ops]
  have "statsCalcGetStdDev real_ops 0 ?m = sqrt (8 / 3)"
    by (simp add: mean ops)
  with sum mean show ?thesis by blast
qed

text \<open>
  C8. For a live handle whose accumulator holds no sample, \<^verbatim>\<open>at\<close> finds the instance and
  nothing is thrown: \<^verbatim>\<open>statsCalcGetMean\<close> returns 0.0 divided by the count 0 as a
  \<^verbatim>\<open>double\<close>, and \<^verbatim>\<open>statsCalcGetStdDev\<close> the square root of that quotient. With the
  facts of IEEE 754 that matter here (the count 0 converts to 0.0, 0.0/0.0 is NaN, and
  the square root of NaN is NaN) both results are NaN.
\<close>

theorem empty_accumulator_gives_nan:
  assumes "map_of m h = Some c" and "numericValues c = []"
    and "d_of_size fp 0 = d_zero fp"
    and "d_div fp (d_zero fp) (d_zero fp) = nan"
    and "d_sqrt fp nan = nan"
  shows "at_map h m = Inr (find_map h m) \<and>
         statsCalcGetMean fp h m = d_div fp (d_zero fp) (d_of_size fp 0) \<and>
         statsCalcGetStdDev fp h m = d_sqrt fp (d_div fp (d_zero fp) (d_of_size fp 0)) \<and>
         statsCalcGetMean fp h m = nan \<and>
         statsCalcGetStdDev fp h m = nan"
proof -
  note q = query_live [OF assms(1), of fp]
  from lookup_live [OF assms(1)] have found: "at_map h m = Inr (find_map h m)" by simp
  have mean: "statsCalcGetMean fp h m = d_div fp (d_zero fp) (d_of_size fp 0)"
    by (simp add: q getMean_def computeMean_def computeSum_def assms(2))
  have dev: "statsCalcGetStdDev fp h m = d_sqrt fp (d_div fp (d_zero fp) (d_of_size fp 0))"
    by (simp add: q getStandardDeviation_def computeStandardDeviation_def assms(2))
  from mean have "statsCalcGetMean fp h m = nan"
    by (simp add: assms(3,4))
  moreover from dev have "statsCalcGetStdDev fp h m = nan"
    by (simp add: assms(3,4,5))
  ultimately show ?thesis using found mean dev by blast
qed

theorem empty_accumulator_gives_nan_witness:
  "statsCalcGetMean xdouble_ops 0 (snd (statsCalcCreate [])) = NaN \<and>
   statsCalcGetStdDev xdouble_ops 0 (snd (statsCalcCreate [])) = NaN"
proof -
  have m: "snd (statsCalcCreate []) = [(0, StatsCalculator_new :: xdouble StatsCalculator)]"
    by (simp add: statsCalcCreate_def empty_map_def)
  have live: "map_of [(0 :: handle, StatsCalculator_new :: xdouble StatsCalculator)] 0
      = Some StatsCalculator_new"
    by simp
  have none: "numericValues (StatsCalculator_new :: xdouble StatsCalculator) = []"
    by (simp add: StatsCalculator_new_def)
  have zero: "d_of_size xdouble_ops 0 = d_zero xdouble_ops"
    by (simp add: xdouble_ops_def)
  have quot: "d_div xdouble_ops (d_zero xdouble_ops) (d_zero xdouble_ops) = NaN"
    by (simp add: xdouble_ops_def)
  have root: "d_sqrt xdouble_ops NaN = NaN"
    by (simp add: xdouble_ops_def)
  from empty_accumulator_gives_nan [OF live none zero quot root] show ?thesis
    unfolding m by blast
qed

section \<open>The sign of the handles\<close>

text \<open>
  A sequence with at most \<open>2 ^ 31\<close> creations cannot reach the overflow. In every registry
  state reached from the empty registry by such a sequence of create, destroy, append,
  read, write and query calls, every live handle is non-negative, and every
  \<^verbatim>\<open>statsCalcCreate\<close> call of the sequence returns a non-negative handle.
\<close>

lemma handles_non_negative:
  assumes "creates cs \<le> 2147483648"
  shows "(\<forall>k \<in> handles (run tokens cs []). 0 \<le> sint k) \<and>
         (\<forall>h \<in> set (created tokens cs []). 0 \<le> sint h)"
proof -
  have start: "in_range 0 ([] :: 'a statsmap)"
    by (simp add: in_range_def map_ok_def handles_def)
  from assms have n: "0 + creates cs \<le> 2147483648" by simp
  from run_in_range [OF start n, of tokens] show ?thesis
    by (simp add: in_range_def)
qed

lemma handles_non_negative_example:
  "run (\<lambda>f. [1, 3 :: real]) [Create, Create, Destroy 0, ReadFile 1 ''data.txt'', WriteStats 1 ''out.txt'', GetMean 1] []
     = [(1, \<lparr>numericValues = [1, 3]\<rparr>)] \<and>
   list_all (\<lambda>p. 0 \<le> sint (fst p))
     (run (\<lambda>f. [1, 3 :: real]) [Create, Create, Destroy 0, ReadFile 1 ''data.txt'', WriteStats 1 ''out.txt'', GetMean 1] []) \<and>
   list_all (\<lambda>h. 0 \<le> sint h)
     (created (\<lambda>f. [1, 3 :: real]) [Create, Create, Destroy 0, ReadFile 1 ''data.txt'', WriteStats 1 ''out.txt'', GetMean 1] [])"
proof -
  let ?cs = "[Create, Create, Destroy 0, ReadFile 1 ''data.txt'', WriteStats 1 ''out.txt'', GetMean 1]
    :: real call list"
  let ?tokens = "\<lambda>f :: string. [1, 3 :: real]"
  have few: "creates ?cs \<le> 2147483648" by simp
  have c1: "statsCalcCreate ([] :: real statsmap) = (0, [(0, StatsCalculator_new)])"
    by (simp add: statsCalcCreate_def empty_map_def)
  have c2: "statsCalcCreate [(0, StatsCalculator_new :: real StatsCalculator)]
      = (1, [(0, StatsCalculator_new), (1, StatsCalculator_new)])"
    by (simp add: statsCalcCreate_def empty_map_def rbegin_def word_sless_alt)
  have d: "statsCalcDestroy 0 [(0, StatsCalculator_new :: real StatsCalculator), (1, StatsCalculator_new)]
      = [(1, StatsCalculator_new)]"
    by (simp add: statsCalcDestroy_Cons)
  have r: "statsCalcReadFile ?tokens 1 ''data.txt'' [(1, StatsCalculator_new)]
      = [(1, \<lparr>numericValues = [1, 3]\<rparr>)]"
    by (simp add: statsCalcReadFile_def at_map_def end_map_def readFile_def
        StatsCalculator_new_def)
  have run: "run ?tokens ?cs [] = [(1, \<lparr>numericValues = [1, 3]\<rparr>)]"
    by (simp add: c1 c2 d r)
  from handles_non_negative [OF few, of ?tokens] run show ?thesis
    by (simp add: list_all_iff handles_def)
qed

text \<open>
  C9. The claim asks for non-negative handles in every state reached from the empty
  registry, as the documentation's keys do (0 first, then one greater than the highest).
  The code misses it on the walk up to \<open>INT_MAX\<close> followed by one more creation: the
  unguarded addition overflows, the handle returned is \<open>INT_MIN\<close>, a negative number, and
  it is live afterwards.
\<close>

theorem negative_handle_reached:
  "run (\<lambda>f. []) (climb 2147483647 @ [Create]) ([] :: real statsmap)
     = [(- 2147483648, StatsCalculator_new), (2147483647, StatsCalculator_new)] \<and>
   sint (- 2147483648 :: handle) = - 2147483648 \<and>
   fst (statsCalcCreate (run (\<lambda>f. []) (climb 2147483647) ([] :: real statsmap))) = - 2147483648"
  by (simp add: run_append climb_to_INT_MAX statsCalcCreate_wraps)

section \<open>What creation leaves alone\<close>

text \<open>
  For every registry state, \<^verbatim>\<open>statsCalcCreate\<close> leaves the accumulator of every handle
  that was live unchanged; and where the addition does not overflow, with the live
  handles all below \<open>INT_MAX\<close>, the handle it returns is distinct from every one of them.
\<close>

lemma statsCalcCreate_frame:
  assumes "map_ok m" and "statsCalcCreate m = (h, m')"
  shows "(\<forall>k \<in> handles m. map_of m' k = map_of m k) \<and>
         ((\<forall>k \<in> handles m. sint k < INT_MAX) \<longrightarrow> h \<notin> handles m)"
proof -
  from assms(2) have h: "h = fst (statsCalcCreate m)" and m': "m' = snd (statsCalcCreate m)"
    by simp_all
  have "\<forall>k \<in> handles m. map_of m' k = map_of m k"
    unfolding m' using statsCalcCreate_general(2) [OF assms(1)] by blast
  moreover have "(\<forall>k \<in> handles m. sint k < INT_MAX) \<longrightarrow> h \<notin> handles m"
  proof
    assume below: "\<forall>k \<in> handles m. sint k < INT_MAX"
    from statsCalcCreate_below_max(1,2) [OF assms(1) below] show "h \<notin> handles m"
      unfolding h by auto
  qed
  ultimately show ?thesis by blast
qed

lemma statsCalcCreate_frame_example:
  "map_of (snd (statsCalcCreate [(0, \<lparr>numericValues = [2 :: real]\<rparr>), (3, StatsCalculator_new)])) 0
     = Some \<lparr>numericValues = [2]\<rparr> \<and>
   fst (statsCalcCreate [(0, \<lparr>numericValues = [2 :: real]\<rparr>), (3, StatsCalculator_new)])
     \<notin> handles [(0, \<lparr>numericValues = [2 :: real]\<rparr>), (3, StatsCalculator_new)]"
proof -
  let ?m = "[(0, \<lparr>numericValues = [2 :: real]\<rparr>), (3, StatsCalculator_new)]"
  have ok: "map_ok ?m" by (simp add: map_ok_def word_sless_alt)
  have below: "\<forall>k \<in> handles ?m. sint k < INT_MAX" by (simp add: handles_def INT_MAX_def)
  have run: "statsCalcCreate ?m = (fst (statsCalcCreate ?m), snd (statsCalcCreate ?m))" by simp
  have live: "0 \<in> handles ?m" by (simp add: handles_def)
  from statsCalcCreate_frame [OF ok run] below live show ?thesis by auto
qed

text \<open>
  C10. The claim asks that the handle returned be distinct from every live handle in
  every state, as the documentation's unique handle does. The code misses it in the
  registry with both \<open>INT_MIN\<close> and \<open>INT_MAX\<close> live (reached from the empty registry by the
  walk up, one more creation and an append): the overflowed key is \<open>INT_MIN\<close>, and the
  handle returned is that live handle, whose accumulator already holds a sample.
\<close>

theorem statsCalcCreate_returns_live_handle:
  "run (\<lambda>f. []) (climb 2147483647 @ [Create, AppendValue (- 2147483648) 2]) []
     = [(- 2147483648, \<lparr>numericValues = [2 :: real]\<rparr>), (2147483647, StatsCalculator_new)] \<and>
   map_ok [(- 2147483648, \<lparr>numericValues = [2 :: real]\<rparr>), (2147483647, StatsCalculator_new)] \<and>
   fst (statsCalcCreate [(- 2147483648, \<lparr>numericValues = [2 :: real]\<rparr>), (2147483647, StatsCalculator_new)])
     \<in> handles [(- 2147483648, \<lparr>numericValues = [2 :: real]\<rparr>), (2147483647, StatsCalculator_new)]"
proof -
  have "map_ok [(- 2147483648, \<lparr>numericValues = [2 :: real]\<rparr>), (2147483647, StatsCalculator_new)] \<and>
      fst (statsCalcCreate [(- 2147483648, \<lparr>numericValues = [2 :: real]\<rparr>), (2147483647, StatsCalculator_new)])
        \<in> handles [(- 2147483648, \<lparr>numericValues = [2 :: real]\<rparr>), (2147483647, StatsCalculator_new)]"
    by (simp add: map_ok_def statsCalcCreate_def empty_map_def rbegin_def handles_def)
  with climb_past_INT_MAX [of "\<lambda>f. []" "2 :: real"] show ?thesis by blast
qed

end
